theory Spec2Isabelle
  imports Main "HOL-Library.Sublist"
begin

section \<open>The umbrella header \<^verbatim>\<open>Sources/clibsass4/libsass4.h\<close>\<close>

text \<open>
  The repository's one source file is a header: a block comment of fifteen lines followed
  by twelve \<^verbatim>\<open>#include\<close> directives. It is embedded as it is written, line by line,
  and read the way the C preprocessor reads it: comments are replaced by a space, the text
  is cut into lines, and each line is either blank, a directive or ordinary program text.
\<close>

subsection \<open>The text of the file\<close>

definition libsass4_h :: "string list" where
  "libsass4_h =
   [''/* This is hairier than it should be because Swift PM does not let you'',
    ''   prepend include search paths and so an existing libsass installation'',
    ''   always wins over a private one.'',
    '''',
    ''   These headers have mutual includes in them.  The order here, then,'',
    ''   is vital to be such that the mutual includes always go backwards to'',
    ''   files that exist in libsass3:'',
    ''     sass.h'',
    ''     sass/base.h'',
    ''     sass/values.h'',
    ''     sass/version.h'',
    '''',
    ''   Goes away entirely when there is a system libsass4 (or just 'libsass'' @ [CHR 0x27],
    ''   by then)'',
    ''*/'',
    ''#include <libsass4/include/sass/base.h>'',
    ''#include <libsass4/include/sass/enums.h>'',
    ''#include <libsass4/include/sass/fwdecl.h>'',
    ''#include <libsass4/include/sass/version.h>'',
    ''#include <libsass4/include/sass/error.h>'',
    ''#include <libsass4/include/sass/traces.h>'',
    ''#include <libsass4/include/sass/values.h>'',
    ''#include <libsass4/include/sass/import.h>'',
    ''#include <libsass4/include/sass/importer.h>'',
    ''#include <libsass4/include/sass/function.h>'',
    ''#include <libsass4/include/sass/compiler.h>'',
    ''#include <libsass4/include/sass/variable.h>'']"

subsection \<open>Reading a header as the preprocessor does\<close>

definition newline :: char where
  "newline = CHR 0x0A"

text \<open>The lines of a file as one text, a newline between two lines.\<close>

fun unlines :: "string list \<Rightarrow> string" where
  "unlines [] = []"
| "unlines [l] = l"
| "unlines (l # m # ls) = l @ newline # unlines (m # ls)"

text \<open>
  Comment removal: a block comment \<^verbatim>\<open>/* ... */\<close>, the one kind of comment the file
  has, becomes one space. The flag says whether the scan is inside a comment.
\<close>

fun strip_comments :: "bool \<Rightarrow> string \<Rightarrow> string" where
  "strip_comments in_comment [] = []"
| "strip_comments in_comment [c] = (if in_comment then [] else [c])"
| "strip_comments in_comment (c # d # cs) =
     (if in_comment then
        (if c = CHR ''*'' \<and> d = CHR ''/'' then CHR '' '' # strip_comments False cs
         else strip_comments True (d # cs))
      else
        (if c = CHR ''/'' \<and> d = CHR ''*'' then strip_comments True cs
         else c # strip_comments False (d # cs)))"

fun split_lines :: "string \<Rightarrow> string list" where
  "split_lines [] = [[]]"
| "split_lines (c # cs) =
     (if c = newline then [] # split_lines cs
      else (case split_lines cs of
              [] \<Rightarrow> [[c]]
            | l # ls \<Rightarrow> (c # l) # ls))"

definition is_space :: "char \<Rightarrow> bool" where
  "is_space c = (c = CHR '' '' \<or> c = CHR 0x09)"

definition is_ident :: "char \<Rightarrow> bool" where
  "is_ident c =
     (c \<in> set ''abcdefghijklmnopqrstuvwxyzABCDEFGHIJKLMNOPQRSTUVWXYZ0123456789_'')"

text \<open>
  The two forms of \<^verbatim>\<open>#include\<close>: \<^verbatim>\<open><path>\<close> and \<^verbatim>\<open>"path"\<close>.
\<close>

datatype include_form = Angle | Quote

text \<open>What a line of a header is, once comments are gone.\<close>

datatype pp_line =
    Include include_form string
  | Define string
  | Ifndef string
  | Pragma string
  | Directive string string
  | Code string

definition parse_include :: "string \<Rightarrow> pp_line" where
  "parse_include arg =
     (case arg of
        [] \<Rightarrow> Directive ''include'' arg
      | q # p \<Rightarrow>
          if q = CHR ''<'' then Include Angle (takeWhile (\<lambda>x. x \<noteq> CHR ''>'') p)
          else if q = CHR 0x22 then Include Quote (takeWhile (\<lambda>x. x \<noteq> CHR 0x22) p)
          else Directive ''include'' arg)"

definition parse_line :: "string \<Rightarrow> pp_line option" where
  "parse_line l =
     (case dropWhile is_space l of
        [] \<Rightarrow> None
      | c # r \<Rightarrow>
          if c \<noteq> CHR ''#'' then Some (Code (c # r))
          else
            (let r1 = dropWhile is_space r;
                 kw = takeWhile is_ident r1;
                 arg = dropWhile is_space (dropWhile is_ident r1)
             in if kw = ''include'' then Some (parse_include arg)
                else if kw = ''define'' then Some (Define (takeWhile is_ident arg))
                else if kw = ''ifndef'' then Some (Ifndef (takeWhile is_ident arg))
                else if kw = ''pragma'' then Some (Pragma arg)
                else Some (Directive kw arg)))"

definition read_header :: "string list \<Rightarrow> pp_line list" where
  "read_header ls = List.map_filter parse_line (split_lines (strip_comments False (unlines ls)))"

fun include_paths :: "pp_line list \<Rightarrow> string list" where
  "include_paths [] = []"
| "include_paths (Include f p # ls) = p # include_paths ls"
| "include_paths (l # ls) = include_paths ls"

fun is_include :: "pp_line \<Rightarrow> bool" where
  "is_include (Include f p) = True"
| "is_include l = False"

fun is_angle :: "pp_line \<Rightarrow> bool" where
  "is_angle (Include Angle p) = True"
| "is_angle l = False"

text \<open>The umbrella header as the preprocessor sees it, and the paths it includes.\<close>

definition umbrella :: "pp_line list" where
  "umbrella = read_header libsass4_h"

definition umbrella_paths :: "string list" where
  "umbrella_paths = include_paths umbrella"

subsection \<open>The header's guard and body\<close>

text \<open>
  A header guards itself against a second inclusion either with the pair
  \<^verbatim>\<open>#ifndef G\<close>, \<^verbatim>\<open>#define G\<close> at its top or with \<^verbatim>\<open>#pragma once\<close>.
\<close>

fun macro_guard :: "pp_line list \<Rightarrow> string option" where
  "macro_guard (Ifndef g # Define d # ls) = (if g = d then Some g else None)"
| "macro_guard ls = None"

definition pragma_once :: "pp_line list \<Rightarrow> bool" where
  "pragma_once ls = (Pragma ''once'' \<in> set ls)"

definition guard_of :: "string \<Rightarrow> pp_line list \<Rightarrow> string option" where
  "guard_of path ls =
     (case macro_guard ls of
        Some g \<Rightarrow> Some g
      | None \<Rightarrow> if pragma_once ls then Some path else None)"

text \<open>
  What a header does when it is expanded, in the order of its lines: it includes a file,
  or it declares something of its own (a macro it defines, or a line of program text).
\<close>

datatype item = Inc string | Decl string

fun body_of :: "pp_line list \<Rightarrow> item list" where
  "body_of [] = []"
| "body_of (Include f p # ls) = Inc p # body_of ls"
| "body_of (Define m # ls) = Decl m # body_of ls"
| "body_of (Code c # ls) = Decl c # body_of ls"
| "body_of (l # ls) = body_of ls"

record header =
  guard :: "string option"
  body :: "item list"

definition header_of :: "string \<Rightarrow> pp_line list \<Rightarrow> header" where
  "header_of path ls = \<lparr>guard = guard_of path ls, body = body_of ls\<rparr>"

definition umbrella_header :: header where
  "umbrella_header = header_of ''libsass4.h'' umbrella"

subsection \<open>Where an include directive looks for its file\<close>

text \<open>
  The quoted form looks beside the including file first and then along the search
  paths; the angle form looks along the search paths only.
\<close>

datatype search_place = IncluderDirectory | SearchPath

fun search_places :: "include_form \<Rightarrow> search_place list" where
  "search_places Quote = [IncluderDirectory, SearchPath]"
| "search_places Angle = [SearchPath]"

fun line_places :: "pp_line \<Rightarrow> search_place list" where
  "line_places (Include f p) = search_places f"
| "line_places l = []"

subsection \<open>Expanding includes\<close>

text \<open>
  The engine's headers are not part of this repository's sources, so the files that the
  include paths resolve to are a parameter: \<open>fs\<close> maps a path, as a directive writes it,
  to the header the build's search paths find for it. The state of a translation unit is
  the set of guards already seen and the declarations made so far, in order. An include
  fails when its file is not found or when includes nest deeper than the limit \<open>n\<close>.
\<close>

record pp_state =
  seen :: "string set"
  declared :: "string list"

datatype pp_error = NotFound string | TooDeep

definition enter :: "header \<Rightarrow> pp_state \<Rightarrow> pp_state option" where
  "enter h s =
     (case guard h of
        None \<Rightarrow> Some s
      | Some g \<Rightarrow> if g \<in> seen s then None else Some (s\<lparr>seen := insert g (seen s)\<rparr>))"

fun run_items ::
  "(string \<Rightarrow> pp_state \<Rightarrow> pp_error + pp_state) \<Rightarrow> item list \<Rightarrow> pp_state \<Rightarrow> pp_error + pp_state"
where
  "run_items inc [] s = Inr s"
| "run_items inc (Inc p # xs) s =
     (case inc p s of Inl e \<Rightarrow> Inl e | Inr s' \<Rightarrow> run_items inc xs s')"
| "run_items inc (Decl d # xs) s = run_items inc xs (s\<lparr>declared := declared s @ [d]\<rparr>)"

primrec expand ::
  "(string \<Rightarrow> header option) \<Rightarrow> nat \<Rightarrow> header \<Rightarrow> pp_state \<Rightarrow> pp_error + pp_state"
where
  "expand fs 0 h s = Inl TooDeep"
| "expand fs (Suc n) h s =
     (case enter h s of
        None \<Rightarrow> Inr s
      | Some s1 \<Rightarrow>
          run_items
            (\<lambda>p t. case fs p of None \<Rightarrow> Inl (NotFound p) | Some h' \<Rightarrow> expand fs n h' t)
            (body h) s1)"

definition include_file ::
  "(string \<Rightarrow> header option) \<Rightarrow> nat \<Rightarrow> string \<Rightarrow> pp_state \<Rightarrow> pp_error + pp_state"
where
  "include_file fs n p t =
     (case fs p of None \<Rightarrow> Inl (NotFound p) | Some h' \<Rightarrow> expand fs n h' t)"

text \<open>A translation unit starts with nothing seen and nothing declared.\<close>

definition fresh :: pp_state where
  "fresh = \<lparr>seen = {}, declared = []\<rparr>"

section \<open>The order the specification requires\<close>

text \<open>
  The twelve groups of the engine's public surface, in the order of the specification's
  section 4.1, and the engine header that plays each role.
\<close>

datatype api_group =
    BasePrimitives
  | EnumeratedConstants
  | ForwardDeclarations
  | VersionMacros
  | ErrorObjects
  | TraceObjects
  | ValueModel
  | ImportDescriptors
  | ImporterCallbacks
  | CustomFunctions
  | CompilerLifecycle
  | VariableAccess

definition required_order :: "api_group list" where
  "required_order =
     [BasePrimitives, EnumeratedConstants, ForwardDeclarations, VersionMacros,
      ErrorObjects, TraceObjects, ValueModel, ImportDescriptors, ImporterCallbacks,
      CustomFunctions, CompilerLifecycle, VariableAccess]"

fun group_number :: "api_group \<Rightarrow> nat" where
  "group_number BasePrimitives = 1"
| "group_number EnumeratedConstants = 2"
| "group_number ForwardDeclarations = 3"
| "group_number VersionMacros = 4"
| "group_number ErrorObjects = 5"
| "group_number TraceObjects = 6"
| "group_number ValueModel = 7"
| "group_number ImportDescriptors = 8"
| "group_number ImporterCallbacks = 9"
| "group_number CustomFunctions = 10"
| "group_number CompilerLifecycle = 11"
| "group_number VariableAccess = 12"

fun group_header :: "api_group \<Rightarrow> string" where
  "group_header BasePrimitives = ''base''"
| "group_header EnumeratedConstants = ''enums''"
| "group_header ForwardDeclarations = ''fwdecl''"
| "group_header VersionMacros = ''version''"
| "group_header ErrorObjects = ''error''"
| "group_header TraceObjects = ''traces''"
| "group_header ValueModel = ''values''"
| "group_header ImportDescriptors = ''import''"
| "group_header ImporterCallbacks = ''importer''"
| "group_header CustomFunctions = ''function''"
| "group_header CompilerLifecycle = ''compiler''"
| "group_header VariableAccess = ''variable''"

text \<open>
  The path discipline: \<^verbatim>\<open><vendor-root>/include/sass/<name>.h\<close>. The engine's own
  headers name one another by the bare form \<^verbatim>\<open>sass/<name>.h\<close>.
\<close>

definition vendor_root :: string where
  "vendor_root = ''libsass4''"

definition vendored :: "string \<Rightarrow> string" where
  "vendored name = vendor_root @ ''/include/sass/'' @ name @ ''.h''"

definition bare :: "string \<Rightarrow> string" where
  "bare name = ''sass/'' @ name @ ''.h''"

definition sass_prefix :: string where
  "sass_prefix = vendor_root @ ''/include/sass/''"

definition header_name :: "string \<Rightarrow> string" where
  "header_name p = drop (length sass_prefix) p"

definition group_of :: "string \<Rightarrow> api_group option" where
  "group_of p = find (\<lambda>g. vendored (group_header g) = p) required_order"

definition listed_groups :: "api_group list" where
  "listed_groups = List.map_filter group_of umbrella_paths"

text \<open>
  The names the file's comment lists as existing in engine v3 as well, and the v4 copy of
  such a name under the vendor root.
\<close>

definition libsass3_names :: "string list" where
  "libsass3_names = [''sass.h'', ''sass/base.h'', ''sass/values.h'', ''sass/version.h'']"


subsection \<open>The dependency relation of the Rationale\<close>

text \<open>
  Modelled from the spec: the engine's headers and so their include directives are not in
  this repository's sources. The Rationale of section 4.1 states which groups reference
  which: the compiler lifecycle references error, trace, import, importer, function and
  value; importer references import and value; value references base and enumerations;
  all reference base and the forward declarations. The last clause is read under the
  sentence it illustrates, "lower-numbered groups are depended on by higher-numbered
  groups": a group references base or the forward declarations when its number is higher.
\<close>

fun named_references :: "api_group \<Rightarrow> api_group list" where
  "named_references CompilerLifecycle =
     [ErrorObjects, TraceObjects, ImportDescriptors, ImporterCallbacks, CustomFunctions,
      ValueModel]"
| "named_references ImporterCallbacks = [ImportDescriptors, ValueModel]"
| "named_references ValueModel = [BasePrimitives, EnumeratedConstants]"
| "named_references g = []"

definition references :: "api_group \<Rightarrow> api_group list" where
  "references g =
     named_references g @
     filter (\<lambda>b. group_number b < group_number g) [BasePrimitives, ForwardDeclarations]"

text \<open>
  The last clause read by itself, without the sentence it illustrates: every group
  references base and the forward declarations, whatever its number.
\<close>

definition references_unordered :: "api_group \<Rightarrow> api_group list" where
  "references_unordered g =
     named_references g @ filter (\<lambda>b. b \<noteq> g) [BasePrimitives, ForwardDeclarations]"

text \<open>
  Modelled from the spec: the include directives of the engine's headers are missing with
  the headers. A header includes, by their bare names, the headers of the groups that its
  group references.
\<close>

definition mutual_includes :: "api_group \<Rightarrow> string list" where
  "mutual_includes g = map (\<lambda>r. bare (group_header r)) (references g)"

text \<open>
  An order keeps every reference going backwards when each group's references stand
  strictly earlier in it. \<open>before\<close> holds the groups already passed.
\<close>

fun backwards ::
  "(api_group \<Rightarrow> api_group list) \<Rightarrow> api_group list \<Rightarrow> api_group list \<Rightarrow> bool"
where
  "backwards refs before [] = True"
| "backwards refs before (g # gs) =
     (list_all (\<lambda>r. r \<in> set before) (refs g) \<and> backwards refs (g # before) gs)"

text \<open>Another order of the twelve: the listed one with trace and error exchanged.\<close>

definition other_order :: "api_group list" where
  "other_order =
     [BasePrimitives, EnumeratedConstants, ForwardDeclarations, VersionMacros,
      TraceObjects, ErrorObjects, ValueModel, ImportDescriptors, ImporterCallbacks,
      CustomFunctions, CompilerLifecycle, VariableAccess]"

section \<open>What a translation unit gets to see\<close>







text \<open>
  The rule of the file's comment, on the files as found: the mutual includes go
  backwards. A file reached from position \<open>j\<close> of the list is one of the listed files, or
  it carries the guard of a file listed before \<open>j\<close> (as the v3 copy of a name carries the
  guard of the v4 copy), so that the include finds the guard seen and passes over it.
\<close>

definition listed :: "(string \<Rightarrow> header option) \<Rightarrow> header \<Rightarrow> bool" where
  "listed fs k \<longleftrightarrow> (\<exists>p \<in> set umbrella_paths. fs p = Some k)"




subsection \<open>An engine to run the model on\<close>

text \<open>
  Modelled from the spec: a stand-in for the engine's headers, one per group. Each is
  guarded, includes by bare name the headers of the groups the Rationale says it
  references, and declares one name. It is found under the vendored path and under the
  bare name alike. The second engine is the same with the guard of the version header
  taken away.
\<close>

definition engine_header :: "api_group \<Rightarrow> header" where
  "engine_header g =
     \<lparr>guard = Some (''SASS_'' @ group_header g @ ''_H''),
      body = map Inc (mutual_includes g) @ [Decl (group_header g)]\<rparr>"

definition engine_group :: "string \<Rightarrow> api_group option" where
  "engine_group p =
     find (\<lambda>g. p = vendored (group_header g) \<or> p = bare (group_header g)) required_order"

definition sample_engine :: "string \<Rightarrow> header option" where
  "sample_engine p = map_option engine_header (engine_group p)"


definition sample_guards :: "string set" where
  "sample_guards = set (map (\<lambda>g. ''SASS_'' @ group_header g @ ''_H'') required_order)"







section \<open>What the file contains\<close>

lemma umbrella_lines:
  "umbrella =
   [Include Angle ''libsass4/include/sass/base.h'',
    Include Angle ''libsass4/include/sass/enums.h'',
    Include Angle ''libsass4/include/sass/fwdecl.h'',
    Include Angle ''libsass4/include/sass/version.h'',
    Include Angle ''libsass4/include/sass/error.h'',
    Include Angle ''libsass4/include/sass/traces.h'',
    Include Angle ''libsass4/include/sass/values.h'',
    Include Angle ''libsass4/include/sass/import.h'',
    Include Angle ''libsass4/include/sass/importer.h'',
    Include Angle ''libsass4/include/sass/function.h'',
    Include Angle ''libsass4/include/sass/compiler.h'',
    Include Angle ''libsass4/include/sass/variable.h'']"
  by code_simp

lemma umbrella_paths_eq:
  "umbrella_paths =
   [''libsass4/include/sass/base.h'',
    ''libsass4/include/sass/enums.h'',
    ''libsass4/include/sass/fwdecl.h'',
    ''libsass4/include/sass/version.h'',
    ''libsass4/include/sass/error.h'',
    ''libsass4/include/sass/traces.h'',
    ''libsass4/include/sass/values.h'',
    ''libsass4/include/sass/import.h'',
    ''libsass4/include/sass/importer.h'',
    ''libsass4/include/sass/function.h'',
    ''libsass4/include/sass/compiler.h'',
    ''libsass4/include/sass/variable.h'']"
  by (simp add: umbrella_paths_def umbrella_lines)


lemma listed_groups_eq: "listed_groups = required_order"
  unfolding listed_groups_def umbrella_paths_eq
  by code_simp

lemma libsass3_names_in_comment:
  "libsass3_names = map (dropWhile is_space) (take 4 (drop 7 libsass4_h))"
  by code_simp



section \<open>The include list\<close>

text \<open>
  C1. The header lists exactly twelve include directives, and nothing else; their paths,
  in the order written, are the headers of the twelve groups of section 4.1 in the order
  of that section: base, enumerations, forward declarations, version, error, traces,
  values, import, importer, function, compiler, variable.
\<close>

theorem umbrella_lists_twelve_in_required_order:
  "length (filter is_include umbrella) = 12 \<and> length umbrella = 12 \<and>
   length required_order = 12 \<and>
   umbrella_paths = map (\<lambda>g. vendored (group_header g)) required_order"
  by (simp add: umbrella_lines umbrella_paths_eq required_order_def vendored_def vendor_root_def)

text \<open>
  C2. Every path an include directive of the file names has the form
  \<^verbatim>\<open><vendor-root>/include/sass/<name>.h\<close>, with a name that is one path component, and
  none has the bare form that starts with \<^verbatim>\<open>sass/\<close>; the vendor root is one path
  component other than \<^verbatim>\<open>sass\<close>.
\<close>

theorem include_paths_vendored_form:
  "p \<in> set umbrella_paths \<Longrightarrow>
     (\<exists>name. name \<noteq> [] \<and> CHR ''/'' \<notin> set name \<and>
        p = vendor_root @ ''/include/sass/'' @ name @ ''.h'')
     \<and> \<not> prefix ''sass/'' p \<and> vendor_root \<noteq> ''sass'' \<and> CHR ''/'' \<notin> set vendor_root"
  unfolding umbrella_paths_eq vendor_root_def
  by (auto simp: prefix_def)

theorem include_paths_vendored_form_witness:
  "''libsass4/include/sass/values.h'' \<in> set umbrella_paths \<and>
   (\<exists>name. name \<noteq> [] \<and> CHR ''/'' \<notin> set name \<and>
      ''libsass4/include/sass/values.h'' = vendor_root @ ''/include/sass/'' @ name @ ''.h'')
   \<and> \<not> prefix ''sass/'' ''libsass4/include/sass/values.h''"
proof -
  have h: "''libsass4/include/sass/values.h'' \<in> set umbrella_paths"
    by (simp add: umbrella_paths_eq)
  show ?thesis using h include_paths_vendored_form [OF h] by blast
qed

text \<open>
  C10. All twelve directives have the angle form and the one prefix
  \<^verbatim>\<open>libsass4/include/sass/\<close>; the header names after the prefix are pairwise distinct,
  so each path stands in the list once; and an angle directive is looked up along the
  search paths only, never beside the including file.
\<close>

theorem includes_angle_one_prefix_distinct:
  "list_all is_angle umbrella \<and> length umbrella_paths = 12 \<and>
   sass_prefix = ''libsass4/include/sass/'' \<and>
   list_all (prefix sass_prefix) umbrella_paths \<and>
   distinct (map header_name umbrella_paths) \<and>
   list_all (\<lambda>p. count_list umbrella_paths p = 1) umbrella_paths \<and>
   list_all (\<lambda>l. line_places l = [SearchPath]) umbrella"
  by (simp add: umbrella_paths_eq umbrella_lines sass_prefix_def header_name_def vendor_root_def)

text \<open>
  C7. The file consists of include directives only: it defines no macro and holds no
  program text, so as a header it has no guard and no declaration of its own, and
  expanding it is expanding its twelve includes, one after the other.
\<close>

theorem umbrella_declares_nothing:
  "list_all is_include umbrella \<and> filter (\<lambda>l. \<not> is_include l) umbrella = [] \<and>
   body_of umbrella = map Inc umbrella_paths \<and> length umbrella_paths = 12 \<and>
   guard umbrella_header = None \<and>
   expand fs (Suc n) umbrella_header s =
     run_items (include_file fs n) (map Inc umbrella_paths) s"
  by (simp add: umbrella_paths_eq umbrella_lines umbrella_header_def header_of_def guard_of_def
      pragma_once_def enter_def include_file_def [abs_def])

section \<open>The order and the Rationale's dependencies\<close>


text \<open>
  Why the Rationale's last clause is read under its governing sentence: read by itself
  it has enumerations reference the forward declarations, which the listed order puts
  later, so the listed order would not keep every reference backwards.
\<close>

lemma unordered_reading_not_backwards:
  "\<not> backwards references_unordered [] listed_groups"
  unfolding listed_groups_eq
  by (simp add: required_order_def references_unordered_def)

text \<open>
  C8, as stated: the listed order is the only order of the twelve headers that keeps
  every reference of the Rationale going backwards. It is not: the order with trace and
  error exchanged is another order of the same twelve that does.
\<close>

theorem listed_order_not_unique:
  "distinct other_order \<and> set other_order = set listed_groups \<and>
   length other_order = length listed_groups \<and> other_order \<noteq> listed_groups \<and>
   backwards references [] other_order"
  unfolding listed_groups_eq
  by (simp add: other_order_def required_order_def references_def) blast

text \<open>
  C8, amended: the listed order is an order of all twelve headers, each once, that keeps
  every reference of the Rationale going backwards; it is one of several such orders.
\<close>

theorem listed_order_goes_backwards:
  "backwards references [] listed_groups \<and> distinct listed_groups \<and>
   set listed_groups = UNIV \<and> length listed_groups = 12 \<and>
   (\<exists>gs. gs \<noteq> listed_groups \<and> distinct gs \<and> set gs = set listed_groups \<and>
      backwards references [] gs)"
proof -
  have all: "set required_order = UNIV"
    using api_group.exhaust by (auto simp: required_order_def)
  have listed: "backwards references [] required_order \<and> distinct required_order \<and>
      length required_order = 12"
    by (simp add: required_order_def references_def)
  have "other_order \<noteq> required_order \<and> distinct other_order \<and>
      set other_order = set required_order \<and> backwards references [] other_order"
    by (simp add: other_order_def required_order_def references_def) blast
  then have "\<exists>gs. gs \<noteq> required_order \<and> distinct gs \<and> set gs = set required_order \<and>
      backwards references [] gs"
    by blast
  with all listed show ?thesis unfolding listed_groups_eq by blast
qed

section \<open>Properties of expansion\<close>

lemma expand_umbrella:
  "expand fs (Suc n) umbrella_header s =
     run_items (include_file fs n) (map Inc umbrella_paths) s"
  by (simp add: umbrella_paths_eq umbrella_lines umbrella_header_def header_of_def guard_of_def
      pragma_once_def enter_def include_file_def [abs_def])

lemma umbrella_unguarded: "guard umbrella_header = None"
  by (simp add: umbrella_lines umbrella_header_def header_of_def guard_of_def pragma_once_def)

lemma enter_seen: "enter h s = Some s1 \<Longrightarrow> seen s \<subseteq> seen s1 \<and> declared s1 = declared s"
  by (auto simp: enter_def split: option.splits if_splits)

lemma enter_guard: "enter h s = Some s1 \<Longrightarrow> guard h = Some g \<Longrightarrow> g \<in> seen s1"
  by (auto simp: enter_def split: option.splits if_splits)

lemma enter_None: "enter h s = None \<longleftrightarrow> (\<exists>g. guard h = Some g \<and> g \<in> seen s)"
  by (auto simp: enter_def split: option.splits if_splits)

lemma run_items_seen_mono:
  assumes "\<And>p t t'. inc p t = Inr t' \<Longrightarrow> seen t \<subseteq> seen t'"
    and "run_items inc xs s = Inr s'"
  shows "seen s \<subseteq> seen s'"
  using assms(2)
proof (induction xs arbitrary: s)
  case Nil
  then show ?case by simp
next
  case (Cons x xs)
  show ?case
  proof (cases x)
    case (Inc p)
    with Cons.prems obtain t where t: "inc p s = Inr t" and r: "run_items inc xs t = Inr s'"
      by (auto split: sum.splits)
    from assms(1) [OF t] Cons.IH [OF r] show ?thesis by blast
  next
    case (Decl d)
    with Cons.prems have "run_items inc xs (s\<lparr>declared := declared s @ [d]\<rparr>) = Inr s'"
      by simp
    from Cons.IH [OF this] show ?thesis by simp
  qed
qed

lemma expand_seen_mono: "expand fs n h s = Inr s' \<Longrightarrow> seen s \<subseteq> seen s'"
proof (induction n arbitrary: h s s')
  case 0
  then show ?case by simp
next
  case (Suc n)
  show ?case
  proof (cases "enter h s")
    case None
    with Suc.prems show ?thesis by simp
  next
    case (Some s1)
    with Suc.prems have r:
      "run_items (\<lambda>p t. case fs p of None \<Rightarrow> Inl (NotFound p) | Some h' \<Rightarrow> expand fs n h' t)
         (body h) s1 = Inr s'"
      by simp
    have "seen s1 \<subseteq> seen s'"
      by (rule run_items_seen_mono [OF _ r]) (auto split: option.splits dest: Suc.IH)
    with enter_seen [OF Some] show ?thesis by blast
  qed
qed

lemma expand_guard_seen:
  assumes "expand fs n h s = Inr s'" and "guard h = Some g"
  shows "g \<in> seen s'"
proof (cases n)
  case 0
  with assms show ?thesis by simp
next
  case (Suc m)
  show ?thesis
  proof (cases "enter h s")
    case None
    with assms Suc show ?thesis by (auto simp: enter_None)
  next
    case (Some s1)
    with assms(1) Suc have
      "run_items (\<lambda>p t. case fs p of None \<Rightarrow> Inl (NotFound p) | Some h' \<Rightarrow> expand fs m h' t)
         (body h) s1 = Inr s'"
      by simp
    then have "seen s1 \<subseteq> seen s'"
      by (rule run_items_seen_mono [rotated]) (auto split: option.splits dest: expand_seen_mono)
    with enter_guard [OF Some assms(2)] show ?thesis by blast
  qed
qed

lemma include_file_seen_mono: "include_file fs n p s = Inr s' \<Longrightarrow> seen s \<subseteq> seen s'"
  by (auto simp: include_file_def split: option.splits dest: expand_seen_mono)

lemma include_file_found:
  "include_file fs n p s = Inr s' \<Longrightarrow> \<exists>h. fs p = Some h \<and> expand fs n h s = Inr s'"
  by (auto simp: include_file_def split: option.splits)

lemma run_includes_guards_seen:
  assumes "run_items (include_file fs n) (map Inc ps) s = Inr s'" and "p \<in> set ps"
  shows "\<exists>h. fs p = Some h \<and> (\<forall>g. guard h = Some g \<longrightarrow> g \<in> seen s')"
  using assms
proof (induction ps arbitrary: s)
  case Nil
  then show ?case by simp
next
  case (Cons q ps)
  from Cons.prems(1) obtain t where t: "include_file fs n q s = Inr t"
    and r: "run_items (include_file fs n) (map Inc ps) t = Inr s'"
    by (auto split: sum.splits)
  have mono: "seen t \<subseteq> seen s'"
    by (rule run_items_seen_mono [OF _ r]) (rule include_file_seen_mono)
  show ?case
  proof (cases "p = q")
    case True
    from include_file_found [OF t] obtain h where h: "fs q = Some h" "expand fs n h s = Inr t"
      by blast
    with mono True show ?thesis by (auto dest: expand_guard_seen)
  next
    case False
    with Cons.prems(2) have "p \<in> set ps" by simp
    from Cons.IH [OF r this] show ?thesis .
  qed
qed

lemma run_includes_skipped:
  assumes "\<And>p. p \<in> set ps \<Longrightarrow> \<exists>h g. fs p = Some h \<and> guard h = Some g \<and> g \<in> seen s"
  shows "run_items (include_file fs (Suc m)) (map Inc ps) s = Inr s"
  using assms
proof (induction ps)
  case Nil
  then show ?case by simp
next
  case (Cons q ps)
  from Cons.prems [of q] obtain h g where "fs q = Some h" "guard h = Some g" "g \<in> seen s"
    by auto
  then have "include_file fs (Suc m) q s = Inr s"
    by (simp add: include_file_def enter_def)
  moreover have "run_items (include_file fs (Suc m)) (map Inc ps) s = Inr s"
    using Cons.prems by (intro Cons.IH) auto
  ultimately show ?case by simp
qed

lemma run_includes_fuel:
  assumes "run_items (include_file fs n) (map Inc ps) s = Inr s'" and "ps \<noteq> []"
  shows "\<exists>m. n = Suc m"
proof (cases n)
  case 0
  from assms(2) obtain q qs where "ps = q # qs" by (cases ps) auto
  with assms(1) 0 show ?thesis
    by (auto simp: include_file_def split: sum.splits option.splits)
next
  case (Suc m)
  then show ?thesis by blast
qed







lemma run_includes_idempotent:
  assumes guarded: "\<And>p h. p \<in> set ps \<Longrightarrow> fs p = Some h \<Longrightarrow> guard h \<noteq> None"
    and run: "run_items (include_file fs k) (map Inc ps) s = Inr s'"
    and "ps \<noteq> []"
  shows "run_items (include_file fs k) (map Inc ps) s' = Inr s'"
proof -
  from run assms(3) obtain m where k: "k = Suc m" using run_includes_fuel by blast
  have "run_items (include_file fs (Suc m)) (map Inc ps) s' = Inr s'"
  proof (rule run_includes_skipped)
    fix p assume p: "p \<in> set ps"
    from run_includes_guards_seen [OF run p] obtain h where
      h: "fs p = Some h" "\<forall>g. guard h = Some g \<longrightarrow> g \<in> seen s'" by blast
    from guarded [OF p h(1)] obtain g where "guard h = Some g" by auto
    with h show "\<exists>h g. fs p = Some h \<and> guard h = Some g \<and> g \<in> seen s'" by blast
  qed
  then show ?thesis by (simp add: k)
qed






subsection \<open>Only listed files declare\<close>





subsection \<open>A listed header's names get declared\<close>







subsection \<open>The engines run\<close>

lemma sample_first:
  "expand sample_engine 3 umbrella_header fresh =
     Inr \<lparr>seen = sample_guards, declared = map group_header required_order\<rparr>"
  by code_simp


lemma sample_guarded:
  "sample_engine p = Some h \<Longrightarrow> guard h \<noteq> None"
  by (auto simp: sample_engine_def engine_header_def)


























section \<open>Including the umbrella header\<close>

text \<open>
  C5. When each of the twelve engine headers has a guard, a second inclusion of the
  umbrella header in a translation unit leaves the unit as the first left it: nothing is
  declared again and nothing is added. The guards are the engine headers': the umbrella
  header has none.
\<close>

theorem second_inclusion_idempotent:
  assumes guarded: "\<forall>p \<in> set umbrella_paths. \<forall>h. fs p = Some h \<longrightarrow> guard h \<noteq> None"
    and first: "expand fs n umbrella_header s = Inr s'"
  shows "expand fs n umbrella_header s' = Inr s' \<and> guard umbrella_header = None"
proof -
  from guarded have guarded: "\<And>p h. p \<in> set umbrella_paths \<Longrightarrow> fs p = Some h \<Longrightarrow> guard h \<noteq> None"
    by blast
  from first obtain k where n: "n = Suc k" by (cases n) auto
  have run: "run_items (include_file fs k) (map Inc umbrella_paths) s = Inr s'"
    using first unfolding n expand_umbrella .
  have "umbrella_paths \<noteq> []" by (simp add: umbrella_paths_eq)
  from run_includes_idempotent [OF guarded run this] show ?thesis
    unfolding n expand_umbrella by (simp add: umbrella_unguarded)
qed

theorem second_inclusion_idempotent_witness:
  "expand sample_engine 3 umbrella_header fresh =
     Inr \<lparr>seen = sample_guards, declared = map group_header required_order\<rparr> \<and>
   expand sample_engine 3 umbrella_header
     \<lparr>seen = sample_guards, declared = map group_header required_order\<rparr> =
     Inr \<lparr>seen = sample_guards, declared = map group_header required_order\<rparr>"
proof -
  have "\<forall>p \<in> set umbrella_paths. \<forall>h. sample_engine p = Some h \<longrightarrow> guard h \<noteq> None"
    by (auto dest: sample_guarded)
  from second_inclusion_idempotent [OF this sample_first] sample_first show ?thesis by simp
qed








section \<open>The mixed install\<close>




end
